theory Spec2Isabelle
  imports Main
begin

section \<open>Constants of tsh.c\<close>

definition MAXJOBS :: nat where "MAXJOBS = 16"

text \<open>Job states are plain C ints in the source (\<^verbatim>\<open>#define UNDEF 0\<close>, ...).\<close>

definition UNDEF :: int where "UNDEF = 0"
definition FG :: int where "FG = 1"
definition BG :: int where "BG = 2"
definition ST :: int where "ST = 3"

datatype signal = SIGINT | SIGTSTP | SIGCONT

definition NL :: string where "NL = [CHR 0x0A]"

section \<open>printf's decimal conversion\<close>

definition digit_char :: "nat \<Rightarrow> char" where
  "digit_char d = char_of (48 + d)"

fun digits :: "nat \<Rightarrow> string" where
  "digits n = (if n < 10 then [digit_char n] else digits (n div 10) @ [digit_char (n mod 10)])"

declare digits.simps [simp del]

text \<open>The conversion \<^verbatim>\<open>%d\<close> of printf.\<close>

definition show_int :: "int \<Rightarrow> string" where
  "show_int i = (if i < 0 then CHR ''-'' # digits (nat (- i)) else digits (nat i))"

section \<open>The job table\<close>

text \<open>
  \<^verbatim>\<open>struct job_t\<close>. Process ids and job ids are C ints; they are modelled as
  unbounded integers (the only arithmetic on them is \<^verbatim>\<open>nextjid++\<close> and
  \<^verbatim>\<open>maxjid(jobs)+1\<close>, which needs more than \<open>2^31\<close> table operations to overflow).
  The command line is a NUL-terminated C string, modelled by its characters.
\<close>

record job_t =
  pid :: int
  jid :: int
  state :: int
  cmdline :: string

text \<open>
  The global variables the job-list routines read and write: the array \<^verbatim>\<open>jobs\<close>
  (a list, of length \<open>MAXJOBS\<close> in every state the shell reaches), \<^verbatim>\<open>nextjid\<close>
  and \<^verbatim>\<open>verbose\<close>.
\<close>

record shell =
  jobs :: "job_t list"
  nextjid :: int
  verbose :: bool

definition clearjob :: "job_t \<Rightarrow> job_t" where
  "clearjob j = j\<lparr>pid := 0, jid := 0, state := UNDEF, cmdline := []\<rparr>"

definition initjobs :: "job_t list \<Rightarrow> job_t list" where
  "initjobs js = map clearjob js"

text \<open>
  The state in which \<^verbatim>\<open>main\<close> enters its read/eval loop: the zero-initialised
  global array after \<^verbatim>\<open>initjobs\<close>, and \<^verbatim>\<open>nextjid = 1\<close>.
\<close>

definition init_shell :: "bool \<Rightarrow> shell" where
  "init_shell v =
     \<lparr>jobs = initjobs (replicate MAXJOBS \<lparr>pid = 0, jid = 0, state = 0, cmdline = []\<rparr>),
      nextjid = 1, verbose = v\<rparr>"

text \<open>
  Every scan of the source has the shape
  \<^verbatim>\<open>for (i = 0; i < MAXJOBS; i++) if (P(jobs[i])) return ...;\<close>
  \<open>first_slot P js\<close> is the index at which such a loop returns, \<open>None\<close> when it
  runs to the end of the array.
\<close>

fun first_slot :: "(job_t \<Rightarrow> bool) \<Rightarrow> job_t list \<Rightarrow> nat option" where
  "first_slot P [] = None"
| "first_slot P (j # js) = (if P j then Some 0 else map_option Suc (first_slot P js))"

fun maxjid_from :: "int \<Rightarrow> job_t list \<Rightarrow> int" where
  "maxjid_from m [] = m"
| "maxjid_from m (j # js) = maxjid_from (if jid j > m then jid j else m) js"

definition maxjid :: "job_t list \<Rightarrow> int" where
  "maxjid js = maxjid_from 0 js"

text \<open>
  \<^verbatim>\<open>addjob\<close> returns its int result, the new globals, and what it printed.
\<close>

definition addjob :: "shell \<Rightarrow> int \<Rightarrow> int \<Rightarrow> string \<Rightarrow> bool \<times> shell \<times> string" where
  "addjob sh p s c =
     (if p < 1 then (False, sh, [])
      else case first_slot (\<lambda>j. pid j = 0) (jobs sh) of
        Some i \<Rightarrow>
          (let j = (jobs sh ! i)\<lparr>pid := p, state := s, jid := nextjid sh, cmdline := c\<rparr>;
               n = nextjid sh + 1
           in (True,
               sh\<lparr>jobs := (jobs sh)[i := j], nextjid := (if n > int MAXJOBS then 1 else n)\<rparr>,
               if verbose sh
               then ''Added job ['' @ show_int (jid j) @ ''] '' @ show_int (pid j) @ '' ''
                    @ cmdline j @ NL
               else []))
      | None \<Rightarrow> (False, sh, ''Tried to create too many jobs'' @ NL))"

definition deletejob :: "shell \<Rightarrow> int \<Rightarrow> bool \<times> shell" where
  "deletejob sh p =
     (if p < 1 then (False, sh)
      else case first_slot (\<lambda>j. pid j = p) (jobs sh) of
        Some i \<Rightarrow>
          (let js = (jobs sh)[i := clearjob (jobs sh ! i)]
           in (True, sh\<lparr>jobs := js, nextjid := maxjid js + 1\<rparr>))
      | None \<Rightarrow> (False, sh))"

definition fgpid :: "job_t list \<Rightarrow> int" where
  "fgpid js = (case first_slot (\<lambda>j. state j = FG) js of Some i \<Rightarrow> pid (js ! i) | None \<Rightarrow> 0)"

text \<open>
  \<^verbatim>\<open>getjobpid\<close> and \<^verbatim>\<open>getjobjid\<close> return a pointer into the array or NULL:
  here the index of the slot, or \<open>None\<close>.
\<close>

definition getjobpid :: "job_t list \<Rightarrow> int \<Rightarrow> nat option" where
  "getjobpid js p = (if p < 1 then None else first_slot (\<lambda>j. pid j = p) js)"

definition getjobjid :: "job_t list \<Rightarrow> int \<Rightarrow> nat option" where
  "getjobjid js i = (if i < 1 then None else first_slot (\<lambda>j. jid j = i) js)"

definition pid2jid :: "job_t list \<Rightarrow> int \<Rightarrow> int" where
  "pid2jid js p =
     (if p < 1 then 0
      else case first_slot (\<lambda>j. pid j = p) js of Some i \<Rightarrow> jid (js ! i) | None \<Rightarrow> 0)"

text \<open>A slot holds a live job when its pid is not the sentinel 0.\<close>

definition live :: "job_t \<Rightarrow> bool" where
  "live j = (pid j \<noteq> 0)"

section \<open>Printing jobs\<close>

text \<open>Everything written to stdout is modelled as the string of characters written.\<close>

definition listjob :: "job_t \<Rightarrow> string" where
  "listjob j = ''['' @ show_int (jid j) @ ''] ('' @ show_int (pid j) @ '') '' @ cmdline j"

text \<open>What one iteration of the loop of \<^verbatim>\<open>listbgjobs\<close> prints for slot \<open>j\<close>.\<close>

definition listbgjobs_slot :: "job_t \<Rightarrow> string" where
  "listbgjobs_slot j =
     (if pid j \<noteq> 0 then
        (if state j = BG then
           (''['' @ show_int (jid j) @ ''] ('' @ show_int (pid j) @ '') '')
           @ ''Running '' @ cmdline j
         else if state j = ST then
           (''['' @ show_int (jid j) @ ''] ('' @ show_int (pid j) @ '') '')
           @ ''Stopped '' @ cmdline j
         else [])
      else [])"

fun listbgjobs :: "job_t list \<Rightarrow> string" where
  "listbgjobs [] = []"
| "listbgjobs (j # js) = listbgjobs_slot j @ listbgjobs js"

section \<open>The C library routines the shell calls\<close>

definition isdigit :: "char \<Rightarrow> bool" where
  "isdigit c = (48 \<le> (of_char c :: nat) \<and> (of_char c :: nat) \<le> 57)"

definition isspace :: "char \<Rightarrow> bool" where
  "isspace c = ((of_char c :: nat) = 32 \<or> (9 \<le> (of_char c :: nat) \<and> (of_char c :: nat) \<le> 13))"

fun atoi_digits :: "int \<Rightarrow> string \<Rightarrow> int" where
  "atoi_digits acc [] = acc"
| "atoi_digits acc (c # cs) =
     (if isdigit c then atoi_digits (acc * 10 + (int (of_char c) - 48)) cs else acc)"

text \<open>
  \<^verbatim>\<open>strtol(s, NULL, 10)\<close>: optional white space, an optional sign, then the longest
  run of digits; a value outside the range of long (64 bits) is replaced by the nearest
  bound.
\<close>

definition strtol :: "string \<Rightarrow> int" where
  "strtol s =
     (let s1 = dropWhile isspace s;
          neg = (s1 \<noteq> [] \<and> hd s1 = CHR ''-'');
          s2 = (if s1 \<noteq> [] \<and> (hd s1 = CHR ''-'' \<or> hd s1 = CHR ''+'') then tl s1 else s1);
          v = atoi_digits 0 s2;
          r = (if neg then - v else v)
      in if r > 9223372036854775807 then 9223372036854775807
         else if r < - 9223372036854775808 then - 9223372036854775808
         else r)"

text \<open>The conversion of a long to int: the low 32 bits, read as two's complement.\<close>

definition int_of_long :: "int \<Rightarrow> int" where
  "int_of_long x = (x + 2147483648) mod 4294967296 - 2147483648"

text \<open>
  \<^verbatim>\<open>atoi\<close> as the C library computes it, \<^verbatim>\<open>(int) strtol(s, NULL, 10)\<close>: a digit
  string beyond the range of int yields the low 32 bits of the saturated value, so
  \<^verbatim>\<open>atoi("4294967396")\<close> is 100.
\<close>

definition atoi :: "string \<Rightarrow> int" where
  "atoi s = int_of_long (strtol s)"

text \<open>\<^verbatim>\<open>isnumber\<close> of tsh.c: 1 when every character up to the NUL is a digit.\<close>

fun isnumber :: "string \<Rightarrow> bool" where
  "isnumber [] = True"
| "isnumber (c # cs) = (if \<not> isdigit c then False else isnumber cs)"

section \<open>What the operating system answers\<close>

text \<open>
  The shell's behaviour depends on three answers of the system: what \<^verbatim>\<open>fork\<close>
  returns, what \<^verbatim>\<open>kill\<close> returns, and the text of \<^verbatim>\<open>strerror(errno)\<close>
  after a failure. The signal-mask calls (\<^verbatim>\<open>Sigprocmask\<close>, \<^verbatim>\<open>Sigfillset\<close>, ...)
  are taken to succeed; handlers run between the steps below, never inside one.
\<close>

record os =
  fork_ret :: int
  kill_ret :: int
  strerror :: string

text \<open>
  Where the main line of control is after a step: back at the prompt, inside the loop of
  \<^verbatim>\<open>waitfg(pid)\<close>, gone through \<^verbatim>\<open>exit(status)\<close>, or (after \<^verbatim>\<open>fork\<close>
  returned 0) the child, which leaves the shell's code through \<^verbatim>\<open>execve\<close> or
  \<^verbatim>\<open>exit\<close>.
\<close>

datatype ctl = Prompt | WaitFg int | Exited int | Child

datatype fault = Null_deref

text \<open>
  The effect of a routine: the globals after it, what it printed, the signals it sent with
  \<^verbatim>\<open>kill\<close> (target and signal), and where control is.
\<close>

record outcome =
  table :: shell
  printed :: string
  killed :: "(int \<times> signal) list"
  control :: ctl

definition unix_error :: "string \<Rightarrow> os \<Rightarrow> shell \<Rightarrow> outcome" where
  "unix_error msg e sh =
     \<lparr>table = sh, printed = msg @ '': '' @ strerror e @ NL, killed = [], control = Exited 1\<rparr>"

definition returns :: "shell \<Rightarrow> string \<Rightarrow> outcome" where
  "returns sh txt = \<lparr>table = sh, printed = txt, killed = [], control = Prompt\<rparr>"

section \<open>The built-in commands\<close>

text \<open>
  Lines 353 to 376 of \<^verbatim>\<open>do_bgfg\<close>: the job the argument \<open>a1\<close> names. The result is
  the diagnostic printed before returning, or the slot found.
\<close>

definition do_bgfg_target :: "string \<Rightarrow> string \<Rightarrow> job_t list \<Rightarrow> string + nat" where
  "do_bgfg_target a0 a1 js =
     (let isjid = (a1 \<noteq> [] \<and> hd a1 = CHR ''%'') in
      if isjid then
        (let t = tl a1 in
         if \<not> isnumber t then Inl (a0 @ '': argument must be a PID or %jobid'' @ NL)
         else case getjobjid js (atoi t) of
                None \<Rightarrow> Inl (''no such job'' @ NL)
              | Some i \<Rightarrow> Inr i)
      else
        (if \<not> isnumber a1 then Inl (a0 @ '': argument must be a PID or %jobid'' @ NL)
         else case getjobpid js (atoi a1) of
                None \<Rightarrow> Inl (''no such process'' @ NL)
              | Some i \<Rightarrow> Inr i))"

text \<open>Lines 381 to 406 of \<^verbatim>\<open>do_bgfg\<close>, with \<^verbatim>\<open>job = &jobs[i]\<close>.\<close>

definition do_bgfg_job :: "bool \<Rightarrow> nat \<Rightarrow> os \<Rightarrow> shell \<Rightarrow> outcome" where
  "do_bgfg_job isbg i e sh =
     (let job = jobs sh ! i in
      if isbg \<and> state job \<noteq> ST then
        returns sh (''bg error - Job is not STOPPED.'' @ NL)
      else if \<not> isbg \<and> \<not> (state job = ST \<or> state job = BG) then
        returns sh (''fg error - Job is not STOPPED or in BACKGROUND.'' @ NL)
      else if kill_ret e < 0 then unix_error ''kill failed'' e sh
      else if isbg then
        \<lparr>table = sh\<lparr>jobs := (jobs sh)[i := job\<lparr>state := BG\<rparr>]\<rparr>,
         printed = listjob job, killed = [(- pid job, SIGCONT)], control = Prompt\<rparr>
      else
        \<lparr>table = sh\<lparr>jobs := (jobs sh)[i := job\<lparr>state := FG\<rparr>]\<rparr>,
         printed = [], killed = [(- pid job, SIGCONT)], control = WaitFg (pid job)\<rparr>)"

text \<open>
  \<^verbatim>\<open>do_bgfg(argv)\<close>. The argument vector is the list of its strings; \<^verbatim>\<open>argv[1]\<close>
  is NULL when the list has one element.
\<close>

definition do_bgfg :: "string list \<Rightarrow> os \<Rightarrow> shell \<Rightarrow> fault + outcome" where
  "do_bgfg argv e sh =
     (case argv of
        [] \<Rightarrow> Inl Null_deref
      | a0 # rest \<Rightarrow>
          (let isbg = (a0 = ''bg'') in
           case rest of
             [] \<Rightarrow> Inr (returns sh (a0 @ '' command requires PID or %jobid argument'' @ NL))
           | a1 # _ \<Rightarrow>
               (case do_bgfg_target a0 a1 (jobs sh) of
                  Inl msg \<Rightarrow> Inr (returns sh msg)
                | Inr i \<Rightarrow> Inr (do_bgfg_job isbg i e sh))))"

text \<open>
  \<^verbatim>\<open>builtin_cmd(argv)\<close>: \<open>None\<close> when it returns 0 (not a built-in command),
  otherwise what the built-in did.
\<close>

definition builtin_cmd :: "string list \<Rightarrow> os \<Rightarrow> shell \<Rightarrow> fault + outcome option" where
  "builtin_cmd argv e sh =
     (case argv of
        [] \<Rightarrow> Inl Null_deref
      | a0 # _ \<Rightarrow>
          if a0 = ''quit'' then
            Inr (Some \<lparr>table = sh, printed = [], killed = [], control = Exited 0\<rparr>)
          else if a0 = ''bg'' then map_sum id Some (do_bgfg argv e sh)
          else if a0 = ''fg'' then map_sum id Some (do_bgfg argv e sh)
          else if a0 = ''jobs'' then Inr (Some (returns sh (listbgjobs (jobs sh))))
          else Inr None)"

section \<open>Running a command\<close>

text \<open>
  \<^verbatim>\<open>eval\<close> after \<^verbatim>\<open>parseline\<close> has produced a non-blank line: \<open>argv\<close> is the
  argument vector, \<open>bg\<close> the flag \<^verbatim>\<open>parseline\<close> returned, \<open>c\<close> the command line as
  typed. The call of \<^verbatim>\<open>waitfg\<close> is the control value \<open>WaitFg\<close>.
\<close>

definition eval_parsed :: "string list \<Rightarrow> bool \<Rightarrow> string \<Rightarrow> os \<Rightarrow> shell \<Rightarrow> fault + outcome" where
  "eval_parsed argv bg c e sh =
     (case builtin_cmd argv e sh of
        Inl f \<Rightarrow> Inl f
      | Inr (Some r) \<Rightarrow> Inr r
      | Inr None \<Rightarrow>
          (let p = fork_ret e in
           if p < 0 then Inr (unix_error ''fork failed.'' e sh)
           else if p = 0 then Inr \<lparr>table = sh, printed = [], killed = [], control = Child\<rparr>
           else
             (case addjob sh p ((if bg then 1 else 0) + 1) c of
                (ok, sh1, txt) \<Rightarrow>
                  if bg then
                    (case getjobpid (jobs sh1) p of
                       None \<Rightarrow> Inl Null_deref
                     | Some i \<Rightarrow> Inr (returns sh1 (txt @ listjob (jobs sh1 ! i))))
                  else
                    Inr \<lparr>table = sh1, printed = txt, killed = [], control = WaitFg p\<rparr>)))"

text \<open>One iteration of the loop of \<^verbatim>\<open>waitfg(p)\<close>, after the \<^verbatim>\<open>sleep\<close>.\<close>

definition waitfg_poll :: "int \<Rightarrow> shell \<Rightarrow> ctl" where
  "waitfg_poll p sh = (if fgpid (jobs sh) \<noteq> p then Prompt else WaitFg p)"

section \<open>The signal handlers\<close>

text \<open>
  What \<^verbatim>\<open>waitpid(-1, &status, WNOHANG | WUNTRACED)\<close> reports about a child: it
  exited with a status, was terminated by a signal, or was stopped by a signal.
\<close>

datatype wstatus = WExited int | WSignaled int | WStopped int

text \<open>The body of the loop of \<^verbatim>\<open>sigchld_handler\<close> for one reaped child \<open>p\<close>.\<close>

definition sigchld_child :: "int \<Rightarrow> wstatus \<Rightarrow> shell \<Rightarrow> shell \<times> string" where
  "sigchld_child p w sh =
     (case w of
        WExited _ \<Rightarrow> (snd (deletejob sh p), [])
      | WStopped sg \<Rightarrow>
          (sh, ''Job ['' @ show_int (pid2jid (jobs sh) p) @ ''] ('' @ show_int p
               @ '') stopped by signal '' @ show_int sg @ NL)
      | WSignaled sg \<Rightarrow>
          (snd (deletejob sh p),
           ''Job ['' @ show_int (pid2jid (jobs sh) p) @ ''] ('' @ show_int p
               @ '') terminated by signal '' @ show_int sg @ NL))"

text \<open>
  \<^verbatim>\<open>sigchld_handler\<close>: the list holds the successive answers of \<^verbatim>\<open>waitpid\<close>;
  the loop ends at the first answer that is not positive, or when nothing is left to
  report.
\<close>

fun sigchld_handler :: "(int \<times> wstatus) list \<Rightarrow> shell \<Rightarrow> shell \<times> string" where
  "sigchld_handler [] sh = (sh, [])"
| "sigchld_handler ((p, w) # ws) sh =
     (if p > 0 then
        (case sigchld_child p w sh of
           (sh1, txt) \<Rightarrow> (case sigchld_handler ws sh1 of (sh2, txt2) \<Rightarrow> (sh2, txt @ txt2)))
      else (sh, []))"

definition sigint_handler :: "os \<Rightarrow> shell \<Rightarrow> outcome" where
  "sigint_handler e sh =
     (let p = fgpid (jobs sh) in
      if p = 0 then \<lparr>table = sh, printed = [], killed = [], control = Prompt\<rparr>
      else if kill_ret e < 0 then unix_error ''kill failed'' e sh
      else \<lparr>table = sh, printed = [], killed = [(- p, SIGINT)], control = Prompt\<rparr>)"

text \<open>
  In the outcome of a handler, the control value \<open>Prompt\<close> stands for the handler
  returning to the interrupted code.
\<close>

definition sigtstp_handler :: "os \<Rightarrow> shell \<Rightarrow> fault + outcome" where
  "sigtstp_handler e sh =
     (let p = fgpid (jobs sh) in
      if p = 0 then Inr \<lparr>table = sh, printed = [], killed = [], control = Prompt\<rparr>
      else if kill_ret e < 0 then Inr (unix_error ''kill failed'' e sh)
      else case getjobpid (jobs sh) p of
        None \<Rightarrow> Inl Null_deref
      | Some i \<Rightarrow>
          Inr \<lparr>table = sh\<lparr>jobs := (jobs sh)[i := (jobs sh ! i)\<lparr>state := ST\<rparr>]\<rparr>,
               printed = [], killed = [(- p, SIGTSTP)], control = Prompt\<rparr>)"

section \<open>The shell as a transition system\<close>

text \<open>
  What can happen to the shell process: the read/eval loop of \<^verbatim>\<open>main\<close> runs
  \<^verbatim>\<open>eval\<close> on a line (parsed into its argument vector and background flag), the
  loop of \<^verbatim>\<open>waitfg\<close> makes one more test, or a signal arrives and its handler runs.
  The main line of control is sequential: a command is read only at the prompt, and
  \<^verbatim>\<open>waitfg\<close> polls only while \<^verbatim>\<open>eval\<close> or \<^verbatim>\<open>do_bgfg\<close> waits for a
  foreground job. Handlers run in either situation.
\<close>

datatype event =
    Command "string list" bool string os
  | Poll
  | Sigchld "(int \<times> wstatus) list"
  | Sigtstp os
  | Sigint os

text \<open>
  After a handler, control is where it was interrupted, unless the handler called
  \<^verbatim>\<open>exit\<close>.
\<close>

definition resume :: "ctl \<Rightarrow> outcome \<Rightarrow> shell \<times> ctl" where
  "resume c r = (table r, if control r = Prompt then c else control r)"

fun handle_signal :: "event \<Rightarrow> shell \<Rightarrow> ctl \<Rightarrow> (shell \<times> ctl) option" where
  "handle_signal (Sigchld ws) sh c = Some (fst (sigchld_handler ws sh), c)"
| "handle_signal (Sigtstp e) sh c =
     (case sigtstp_handler e sh of Inl f \<Rightarrow> None | Inr r \<Rightarrow> Some (resume c r))"
| "handle_signal (Sigint e) sh c = Some (resume c (sigint_handler e sh))"
| "handle_signal ev sh c = None"

text \<open>
  One step; \<open>None\<close> when the event cannot happen in this situation (the process is gone,
  or the main line is elsewhere) or when the step dereferences NULL.
\<close>

fun step :: "event \<Rightarrow> shell \<times> ctl \<Rightarrow> (shell \<times> ctl) option" where
  "step (Command argv bg c e) (sh, Prompt) =
     (case eval_parsed argv bg c e sh of Inl f \<Rightarrow> None | Inr r \<Rightarrow> Some (table r, control r))"
| "step Poll (sh, WaitFg p) = Some (sh, waitfg_poll p sh)"
| "step ev (sh, Prompt) = handle_signal ev sh Prompt"
| "step ev (sh, WaitFg p) = handle_signal ev sh (WaitFg p)"
| "step ev (sh, Exited n) = None"
| "step ev (sh, Child) = None"

fun run :: "event list \<Rightarrow> shell \<times> ctl \<Rightarrow> (shell \<times> ctl) option" where
  "run [] cfg = Some cfg"
| "run (ev # evs) cfg = (case step ev cfg of None \<Rightarrow> None | Some cfg' \<Rightarrow> run evs cfg')"

section \<open>Concrete runs\<close>

text \<open>
  The system answering that \<^verbatim>\<open>fork\<close> returned \<open>p\<close> and that \<^verbatim>\<open>kill\<close>
  succeeded.
\<close>

definition os_ok :: "int \<Rightarrow> os" where
  "os_ok p = \<lparr>fork_ret = p, kill_ret = 0, strerror = []\<rparr>"

text \<open>The user types \<^verbatim>\<open>sleep 5 &\<close>, or \<^verbatim>\<open>sleep 5\<close>, and the child gets pid \<open>p\<close>.\<close>

definition spawn_bg :: "int \<Rightarrow> event" where
  "spawn_bg p = Command [''sleep'', ''5''] True (''sleep 5 &'' @ NL) (os_ok p)"

definition spawn_fg :: "int \<Rightarrow> event" where
  "spawn_fg p = Command [''sleep'', ''5''] False (''sleep 5'' @ NL) (os_ok p)"

text \<open>The shell after a sequence of events, started as \<^verbatim>\<open>main\<close> starts it.\<close>

definition after :: "event list \<Rightarrow> (shell \<times> ctl) option" where
  "after evs = run evs (init_shell False, Prompt)"

definition nextjid_after :: "event list \<Rightarrow> int option" where
  "nextjid_after evs = map_option (\<lambda>cfg. nextjid (fst cfg)) (after evs)"

definition jobs_after :: "event list \<Rightarrow> job_t list option" where
  "jobs_after evs = map_option (\<lambda>cfg. jobs (fst cfg)) (after evs)"

text \<open>The table after \<^verbatim>\<open>addjob\<close> put one job, with pid \<open>p\<close> and state \<open>s\<close>, into the empty table.\<close>

definition table_with :: "int \<Rightarrow> int \<Rightarrow> shell" where
  "table_with p s = fst (snd (addjob (init_shell False) p s (''sleep 5'' @ NL)))"

section \<open>Notions the properties are stated with\<close>

text \<open>The live jobs in state Foreground.\<close>

definition fg_jobs :: "job_t list \<Rightarrow> job_t list" where
  "fg_jobs js = filter (\<lambda>j. live j \<and> state j = FG) js"

text \<open>The largest job id among the live jobs, 0 when there is none.\<close>

fun max_live_jid :: "job_t list \<Rightarrow> int" where
  "max_live_jid [] = 0"
| "max_live_jid (j # js) = (if live j then max (jid j) (max_live_jid js) else max_live_jid js)"

text \<open>
  The next job id as the specification describes it: the maximum job id among the live
  jobs plus 1, wrapping to 1 if that would exceed the capacity of the table.
\<close>

definition spec_next_jid :: "job_t list \<Rightarrow> int" where
  "spec_next_jid js =
     (if max_live_jid js + 1 > int MAXJOBS then 1 else max_live_jid js + 1)"

text \<open>
  The line for a job as the specification describes it, for the \<^verbatim>\<open>jobs\<close> listing and
  for job announcements:
  \<^verbatim>\<open>[<job_id>] (<process_id>) <State> <original_command_text>\<close>, the state being
  one of Running, Foreground and Stopped.
\<close>

definition state_word :: "int \<Rightarrow> string" where
  "state_word s =
     (if s = BG then ''Running'' else if s = FG then ''Foreground''
      else if s = ST then ''Stopped'' else [])"

definition spec_line :: "job_t \<Rightarrow> string" where
  "spec_line j =
     ''['' @ show_int (jid j) @ ''] ('' @ show_int (pid j) @ '') '' @ state_word (state j)
     @ '' '' @ cmdline j"

text \<open>The number a string of digits denotes.\<close>

definition decimal :: "string \<Rightarrow> int" where
  "decimal t = foldl (\<lambda>a c. a * 10 + (int (of_char c) - 48)) 0 t"

text \<open>Free slots carry job id 0, as \<^verbatim>\<open>clearjob\<close> leaves them.\<close>

definition free_slots_clear :: "job_t list \<Rightarrow> bool" where
  "free_slots_clear js = list_all (\<lambda>j. live j \<or> jid j = 0) js"

text \<open>
  The invariant behind "at most one foreground job": at most one slot is in state FG; at the
  prompt no slot is; and while \<^verbatim>\<open>waitfg(p)\<close> polls, a slot in state FG holds pid
  \<open>p\<close>.
\<close>

definition fg_invariant :: "shell \<times> ctl \<Rightarrow> bool" where
  "fg_invariant cfg =
     (length (filter (\<lambda>j. state j = FG) (jobs (fst cfg))) \<le> 1
      \<and> (case snd cfg of
            Prompt \<Rightarrow> list_all (\<lambda>j. state j \<noteq> FG) (jobs (fst cfg))
          | WaitFg p \<Rightarrow> list_all (\<lambda>j. state j = FG \<longrightarrow> pid j = p) (jobs (fst cfg))
          | Exited n \<Rightarrow> True
          | Child \<Rightarrow> True))"

section \<open>Facts about the scans\<close>

lemma first_slot_None: "first_slot P js = None \<longleftrightarrow> (\<forall>j \<in> set js. \<not> P j)"
  by (induction js) auto

lemma first_slot_Some:
  "first_slot P js = Some i \<Longrightarrow> i < length js \<and> P (js ! i) \<and> (\<forall>k < i. \<not> P (js ! k))"
proof (induction js arbitrary: i)
  case Nil
  then show ?case by simp
next
  case (Cons j js)
  show ?case
  proof (cases "P j")
    case True
    with Cons.prems show ?thesis by simp
  next
    case False
    with Cons.prems obtain i' where i': "first_slot P js = Some i'" "i = Suc i'"
      by auto
    from Cons.IH [OF i'(1)] False i'(2) show ?thesis
      by (auto simp: less_Suc_eq_0_disj)
  qed
qed

lemma first_slot_update:
  "i < length js \<Longrightarrow> P x \<Longrightarrow> (\<forall>k < i. \<not> P (js ! k)) \<Longrightarrow> first_slot P (js[i := x]) = Some i"
proof (induction js arbitrary: i)
  case Nil
  then show ?case by simp
next
  case (Cons j js)
  show ?case
  proof (cases i)
    case 0
    with Cons.prems show ?thesis by simp
  next
    case (Suc i')
    with Cons.prems have "\<not> P j" and "i' < length js" and "\<forall>k < i'. \<not> P (js ! k)"
      by auto
    with Cons.IH [of i'] Cons.prems(2) Suc show ?thesis by simp
  qed
qed

lemma update_not_found:
  assumes "i < length js" "\<not> P x" "\<forall>k < length js. k \<noteq> i \<longrightarrow> \<not> P (js ! k)"
  shows "first_slot P (js[i := x]) = None"
  unfolding first_slot_None
proof
  fix j assume "j \<in> set (js[i := x])"
  then obtain k where k: "k < length js" "j = js[i := x] ! k"
    by (auto simp: in_set_conv_nth)
  show "\<not> P j"
  proof (cases "k = i")
    case True
    with k assms show ?thesis by simp
  next
    case False
    with k assms show ?thesis by simp
  qed
qed

lemma list_all_update:
  "list_all Q xs \<Longrightarrow> Q x \<Longrightarrow> list_all Q (xs[i := x])"
  using set_update_subset_insert [of xs i x] by (auto simp: list_all_iff)

section \<open>The array keeps its size\<close>

text \<open>
  In every state the shell reaches, the list modelling the array \<^verbatim>\<open>jobs\<close> has
  \<open>MAXJOBS\<close> elements, so a scan of the list is a scan of the indices below
  \<open>MAXJOBS\<close>.
\<close>

lemma length_deletejob: "length (jobs (snd (deletejob sh p))) = length (jobs sh)"
  by (simp add: deletejob_def Let_def split: option.splits)

lemma length_addjob:
  "addjob sh p s c = (ok, sh1, txt) \<Longrightarrow> length (jobs sh1) = length (jobs sh)"
  by (auto simp: addjob_def Let_def split: if_splits option.splits)

lemma length_sigchld_child: "length (jobs (fst (sigchld_child p w sh))) = length (jobs sh)"
  by (cases w) (simp_all add: sigchld_child_def length_deletejob)

lemma length_sigchld_handler: "length (jobs (fst (sigchld_handler ws sh))) = length (jobs sh)"
proof (induction ws arbitrary: sh)
  case Nil
  then show ?case by simp
next
  case (Cons a ws)
  obtain p w where a: "a = (p, w)" by (cases a)
  from Cons.IH [of "fst (sigchld_child p w sh)"] length_sigchld_child [of p w sh] a
  show ?case by (auto split: prod.splits)
qed

lemma length_sigtstp:
  "sigtstp_handler e sh = Inr r \<Longrightarrow> length (jobs (table r)) = length (jobs sh)"
  by (auto simp: sigtstp_handler_def Let_def unix_error_def split: if_splits option.splits)

lemma length_sigint: "length (jobs (table (sigint_handler e sh))) = length (jobs sh)"
  by (simp add: sigint_handler_def Let_def unix_error_def)

lemma length_do_bgfg:
  "do_bgfg argv e sh = Inr r \<Longrightarrow> length (jobs (table r)) = length (jobs sh)"
  by (auto simp: do_bgfg_def do_bgfg_job_def Let_def returns_def unix_error_def
           split: list.splits sum.splits if_splits)

lemma length_builtin_cmd:
  "builtin_cmd argv e sh = Inr (Some r) \<Longrightarrow> length (jobs (table r)) = length (jobs sh)"
  by (cases argv)
     (auto simp: builtin_cmd_def returns_def map_sum_def dest: length_do_bgfg
           split: if_splits sum.splits)

lemma length_eval_parsed:
  assumes "eval_parsed argv bg c e sh = Inr r"
  shows "length (jobs (table r)) = length (jobs sh)"
proof (cases "builtin_cmd argv e sh")
  case (Inl f)
  with assms show ?thesis by (simp add: eval_parsed_def)
next
  case (Inr b)
  show ?thesis
  proof (cases b)
    case (Some r')
    with Inr assms length_builtin_cmd [of argv e sh r] show ?thesis
      by (simp add: eval_parsed_def)
  next
    case None
    from assms Inr None show ?thesis
      by (auto simp: eval_parsed_def Let_def returns_def unix_error_def
               dest: length_addjob split: if_splits prod.splits option.splits)
  qed
qed

lemma length_step:
  assumes "step ev cfg = Some cfg'"
  shows "length (jobs (fst cfg')) = length (jobs (fst cfg))"
proof -
  obtain sh c where cfg: "cfg = (sh, c)" by (cases cfg)
  have h: "length (jobs (fst cfg')) = length (jobs sh)" if "handle_signal ev sh k = Some cfg'" for k
    using that length_sigchld_handler [of _ sh] length_sigint [of _ sh]
    by (cases ev) (auto simp: resume_def dest: length_sigtstp split: sum.splits)
  from assms cfg h show ?thesis
    by (cases c; cases ev)
       (auto simp: waitfg_poll_def dest: length_eval_parsed split: sum.splits)
qed

lemma length_run:
  "run evs cfg = Some cfg' \<Longrightarrow> length (jobs (fst cfg')) = length (jobs (fst cfg))"
proof (induction evs arbitrary: cfg)
  case Nil
  then show ?case by simp
next
  case (Cons ev evs)
  from Cons.prems obtain cfg1 where s: "step ev cfg = Some cfg1" and r: "run evs cfg1 = Some cfg'"
    by (auto split: option.splits)
  from Cons.IH [OF r] length_step [OF s] show ?case by simp
qed

lemma table_has_MAXJOBS_slots:
  "run evs (init_shell v, Prompt) = Some (sh, c) \<Longrightarrow> length (jobs sh) = MAXJOBS"
  using length_run [of evs "(init_shell v, Prompt)" "(sh, c)"]
  by (simp add: init_shell_def initjobs_def)

section \<open>Failing inserts and removals\<close>

text \<open>
  C9. For every state of the job table and every pid \<open>p\<close>: when \<open>p < 1\<close>, both
  \<^verbatim>\<open>addjob\<close> and \<^verbatim>\<open>deletejob\<close> return false and leave the array and
  \<^verbatim>\<open>nextjid\<close> as they were (and print nothing); and when \<open>p\<close> is not the pid
  of any live job, \<^verbatim>\<open>deletejob\<close> returns false and leaves every slot and
  \<^verbatim>\<open>nextjid\<close> as they were.
\<close>

theorem addjob_deletejob_fail_unchanged:
  "(p < 1 \<longrightarrow> addjob sh p s c = (False, sh, []) \<and> deletejob sh p = (False, sh))
   \<and> ((\<forall>j \<in> set (jobs sh). live j \<longrightarrow> pid j \<noteq> p) \<longrightarrow> deletejob sh p = (False, sh))"
proof -
  have "first_slot (\<lambda>j. pid j = p) (jobs sh) = None"
    if "\<forall>j \<in> set (jobs sh). live j \<longrightarrow> pid j \<noteq> p" and "\<not> p < 1"
    using that by (auto simp: first_slot_None live_def)
  then show ?thesis
    by (auto simp: addjob_def deletejob_def)
qed

theorem addjob_deletejob_fail_unchanged_witness:
  "addjob (init_shell False) 0 FG ''sleep 5'' = (False, init_shell False, [])
   \<and> deletejob (init_shell False) 0 = (False, init_shell False)
   \<and> deletejob (init_shell False) 7 = (False, init_shell False)"
proof -
  have h1: "(0::int) < 1" by simp
  have h2: "\<forall>j \<in> set (jobs (init_shell False)). live j \<longrightarrow> pid j \<noteq> 7"
    by (simp add: init_shell_def initjobs_def clearjob_def live_def MAXJOBS_def)
  show ?thesis
    using h1 h2
      addjob_deletejob_fail_unchanged [of 0 "init_shell False" FG "''sleep 5''"]
      addjob_deletejob_fail_unchanged [of 7 "init_shell False" FG "''sleep 5''"]
    by blast
qed

section \<open>The built-in commands bg and fg\<close>

lemma isdigit_value: "isdigit c \<Longrightarrow> 0 \<le> int (of_char c) - 48"
  by (simp add: isdigit_def)

lemma atoi_digits_decimal:
  "isnumber t \<Longrightarrow> atoi_digits a t = foldl (\<lambda>a c. a * 10 + (int (of_char c) - 48)) a t"
  by (induction t arbitrary: a) (auto split: if_splits)

lemma decimal_from_nonneg:
  "isnumber t \<Longrightarrow> 0 \<le> a \<Longrightarrow> 0 \<le> foldl (\<lambda>a c. a * 10 + (int (of_char c) - 48)) a t"
proof (induction t arbitrary: a)
  case Nil
  then show ?case by simp
next
  case (Cons c t)
  from Cons.prems have d: "isdigit c" and t: "isnumber t" by (auto split: if_splits)
  from isdigit_value [OF d] Cons.prems(2) have "0 \<le> a * 10 + (int (of_char c) - 48)" by simp
  from Cons.IH [OF t this] show ?case by simp
qed

lemma isnumber_plain:
  assumes "isnumber t"
  shows "dropWhile isspace t = t \<and> \<not> (t \<noteq> [] \<and> (hd t = CHR ''-'' \<or> hd t = CHR ''+''))"
proof (cases t)
  case Nil
  then show ?thesis by simp
next
  case (Cons c cs)
  with assms have "isdigit c" by (auto split: if_splits)
  then have "\<not> isspace c" and "c \<noteq> CHR ''-''" and "c \<noteq> CHR ''+''"
    by (auto simp: isdigit_def isspace_def)
  with Cons show ?thesis by simp
qed

lemma strtol_decimal:
  assumes "isnumber t"
  shows "strtol t = (if decimal t > 9223372036854775807 then 9223372036854775807 else decimal t)"
proof -
  from decimal_from_nonneg [OF assms, of 0] have "0 \<le> decimal t"
    by (simp add: decimal_def)
  with isnumber_plain [OF assms] atoi_digits_decimal [OF assms, of 0] show ?thesis
    by (auto simp: strtol_def decimal_def Let_def)
qed

lemma atoi_in_range:
  assumes "isnumber t" and "decimal t \<le> 2147483647"
  shows "atoi t = decimal t"
proof -
  from decimal_from_nonneg [OF assms(1), of 0] have "0 \<le> decimal t"
    by (simp add: decimal_def)
  with assms(2) strtol_decimal [OF assms(1)] show ?thesis
    by (simp add: atoi_def int_of_long_def)
qed

text \<open>
  C7, as the claim states it, fails: \<^verbatim>\<open>fg 4294967396\<close> names a number that is the pid
  of no job, yet with a background job of pid 100 in the table the command prints no
  diagnostic: \<^verbatim>\<open>atoi\<close> yields 100, the job is sent SIGCONT, put in the foreground and
  waited for.
\<close>

theorem bgfg_out_of_range_counterexample:
  "isnumber ''4294967396''
   \<and> decimal ''4294967396'' = 4294967396
   \<and> getjobpid (jobs (table_with 100 BG)) 4294967396 = None
   \<and> map_sum id printed (do_bgfg [''fg'', ''4294967396''] (os_ok 0) (table_with 100 BG))
     = Inr []
   \<and> map_sum id killed (do_bgfg [''fg'', ''4294967396''] (os_ok 0) (table_with 100 BG))
     = Inr [(- 100, SIGCONT)]
   \<and> map_sum id control (do_bgfg [''fg'', ''4294967396''] (os_ok 0) (table_with 100 BG))
     = Inr (WaitFg 100)
   \<and> state (jobs (table_with 100 BG) ! 0) = BG
   \<and> map_sum id (\<lambda>r. state (jobs (table r) ! 0))
       (do_bgfg [''fg'', ''4294967396''] (os_ok 0) (table_with 100 BG))
     = Inr FG"
  by code_simp

text \<open>
  C7, amended. For every invocation of bg or fg, validation proceeds in this order. When
  \<^verbatim>\<open>argv[1]\<close> is missing, the command prints
  \<^verbatim>\<open><name> command requires PID or %jobid argument\<close> (so \<^verbatim>\<open>bg\<close> alone prints
  \<^verbatim>\<open>bg command requires PID or %jobid argument\<close>). Otherwise, when the argument (after
  the \<^verbatim>\<open>%\<close> of a job reference) is not numeric, it prints
  \<^verbatim>\<open><name>: argument must be a PID or %jobid\<close>, whatever the table holds. Otherwise,
  when the number fits in an int (it is at most 2147483647) and resolves to no job (by job
  id after \<^verbatim>\<open>%\<close>, by pid for a bare number), it prints \<^verbatim>\<open>no such job\<close> or
  \<^verbatim>\<open>no such process\<close>. In each case the command returns with the table unchanged and no
  signal sent.
\<close>

theorem bgfg_validation_order:
  "do_bgfg [a0] e sh
     = Inr \<lparr>table = sh, printed = a0 @ '' command requires PID or %jobid argument'' @ NL,
            killed = [], control = Prompt\<rparr>
   \<and> do_bgfg [''bg''] e sh
     = Inr \<lparr>table = sh, printed = ''bg command requires PID or %jobid argument'' @ NL,
            killed = [], control = Prompt\<rparr>
   \<and> (\<not> isnumber t \<longrightarrow>
        do_bgfg (a0 # (CHR ''%'' # t) # rest) e sh
        = Inr \<lparr>table = sh, printed = a0 @ '': argument must be a PID or %jobid'' @ NL,
               killed = [], control = Prompt\<rparr>)
   \<and> (\<not> (a1 \<noteq> [] \<and> hd a1 = CHR ''%'') \<and> \<not> isnumber a1 \<longrightarrow>
        do_bgfg (a0 # a1 # rest) e sh
        = Inr \<lparr>table = sh, printed = a0 @ '': argument must be a PID or %jobid'' @ NL,
               killed = [], control = Prompt\<rparr>)
   \<and> (isnumber t \<and> decimal t \<le> 2147483647 \<and> getjobjid (jobs sh) (decimal t) = None \<longrightarrow>
        do_bgfg (a0 # (CHR ''%'' # t) # rest) e sh
        = Inr \<lparr>table = sh, printed = ''no such job'' @ NL, killed = [], control = Prompt\<rparr>)
   \<and> (\<not> (a1 \<noteq> [] \<and> hd a1 = CHR ''%'') \<and> isnumber a1 \<and> decimal a1 \<le> 2147483647
        \<and> getjobpid (jobs sh) (decimal a1) = None \<longrightarrow>
        do_bgfg (a0 # a1 # rest) e sh
        = Inr \<lparr>table = sh, printed = ''no such process'' @ NL, killed = [], control = Prompt\<rparr>)"
proof -
  have j: "do_bgfg (a0 # (CHR ''%'' # t) # rest) e sh
        = Inr \<lparr>table = sh, printed = ''no such job'' @ NL, killed = [], control = Prompt\<rparr>"
    if "isnumber t" "decimal t \<le> 2147483647" "getjobjid (jobs sh) (decimal t) = None"
    using that atoi_in_range [of t]
    by (simp add: do_bgfg_def do_bgfg_target_def returns_def)
  have p: "do_bgfg (a0 # a1 # rest) e sh
        = Inr \<lparr>table = sh, printed = ''no such process'' @ NL, killed = [], control = Prompt\<rparr>"
    if "\<not> (a1 \<noteq> [] \<and> hd a1 = CHR ''%'')" "isnumber a1" "decimal a1 \<le> 2147483647"
      "getjobpid (jobs sh) (decimal a1) = None"
    using that atoi_in_range [of a1]
    by (auto simp: do_bgfg_def do_bgfg_target_def returns_def)
  from j p show ?thesis
    by (simp add: do_bgfg_def do_bgfg_target_def returns_def)
qed

theorem bgfg_validation_order_witness:
  "do_bgfg [''fg'', ''%x1''] (os_ok 0) (table_with 100 BG)
     = Inr \<lparr>table = table_with 100 BG,
            printed = ''fg'' @ '': argument must be a PID or %jobid'' @ NL,
            killed = [], control = Prompt\<rparr>
   \<and> do_bgfg [''bg'', ''1a''] (os_ok 0) (table_with 100 BG)
     = Inr \<lparr>table = table_with 100 BG,
            printed = ''bg'' @ '': argument must be a PID or %jobid'' @ NL,
            killed = [], control = Prompt\<rparr>
   \<and> do_bgfg [''fg'', ''%2''] (os_ok 0) (table_with 100 BG)
     = Inr \<lparr>table = table_with 100 BG, printed = ''no such job'' @ NL,
            killed = [], control = Prompt\<rparr>
   \<and> do_bgfg [''bg'', ''101''] (os_ok 0) (table_with 100 BG)
     = Inr \<lparr>table = table_with 100 BG, printed = ''no such process'' @ NL,
            killed = [], control = Prompt\<rparr>"
proof -
  have h1: "\<not> isnumber ''x1''" by code_simp
  have h2: "\<not> (''1a'' \<noteq> [] \<and> hd ''1a'' = CHR ''%'') \<and> \<not> isnumber ''1a''" by code_simp
  have h3: "isnumber ''2'' \<and> decimal ''2'' \<le> 2147483647
        \<and> getjobjid (jobs (table_with 100 BG)) (decimal ''2'') = None"
    by code_simp
  have h4: "\<not> (''101'' \<noteq> [] \<and> hd ''101'' = CHR ''%'') \<and> isnumber ''101''
        \<and> decimal ''101'' \<le> 2147483647
        \<and> getjobpid (jobs (table_with 100 BG)) (decimal ''101'') = None"
    by code_simp
  note c3 = bgfg_validation_order
    [of "''fg''" "os_ok 0" "table_with 100 BG" "''x1''" "[]" "''1a''",
     THEN conjunct2, THEN conjunct2, THEN conjunct1, THEN mp, OF h1]
  note c4 = bgfg_validation_order
    [of "''bg''" "os_ok 0" "table_with 100 BG" "''2''" "[]" "''1a''",
     THEN conjunct2, THEN conjunct2, THEN conjunct2, THEN conjunct1, THEN mp, OF h2]
  note c5 = bgfg_validation_order
    [of "''fg''" "os_ok 0" "table_with 100 BG" "''2''" "[]" "''101''",
     THEN conjunct2, THEN conjunct2, THEN conjunct2, THEN conjunct2, THEN conjunct1,
     THEN mp, OF h3]
  note c6 = bgfg_validation_order
    [of "''bg''" "os_ok 0" "table_with 100 BG" "''2''" "[]" "''101''",
     THEN conjunct2, THEN conjunct2, THEN conjunct2, THEN conjunct2, THEN conjunct2,
     THEN mp, OF h4]
  from c3 c4 c5 c6 show ?thesis by (intro conjI)
qed

text \<open>
  C6. For every invocation of bg whose target resolves to a job that is not Stopped, and
  every invocation of fg whose target resolves to a job that is neither Stopped nor in
  the background, a diagnostic line is printed and the command returns: no signal is
  sent and the job table, the state of the target included, is unchanged.
\<close>

theorem bgfg_wrong_state:
  assumes "do_bgfg_target a0 a1 (jobs sh) = Inr i"
  shows "(a0 = ''bg'' \<and> state (jobs sh ! i) \<noteq> ST \<longrightarrow>
           do_bgfg (a0 # a1 # rest) e sh
           = Inr \<lparr>table = sh, printed = ''bg error - Job is not STOPPED.'' @ NL,
                  killed = [], control = Prompt\<rparr>)
       \<and> (a0 = ''fg'' \<and> state (jobs sh ! i) \<noteq> ST \<and> state (jobs sh ! i) \<noteq> BG \<longrightarrow>
           do_bgfg (a0 # a1 # rest) e sh
           = Inr \<lparr>table = sh,
                  printed = ''fg error - Job is not STOPPED or in BACKGROUND.'' @ NL,
                  killed = [], control = Prompt\<rparr>)"
  using assms by (auto simp: do_bgfg_def do_bgfg_job_def returns_def)

theorem bgfg_wrong_state_witness:
  "do_bgfg [''bg'', ''%1''] (os_ok 0) (table_with 100 BG)
     = Inr \<lparr>table = table_with 100 BG, printed = ''bg error - Job is not STOPPED.'' @ NL,
            killed = [], control = Prompt\<rparr>
   \<and> do_bgfg [''fg'', ''100''] (os_ok 0) (table_with 100 FG)
     = Inr \<lparr>table = table_with 100 FG,
            printed = ''fg error - Job is not STOPPED or in BACKGROUND.'' @ NL,
            killed = [], control = Prompt\<rparr>"
proof -
  have b: "do_bgfg_target ''bg'' ''%1'' (jobs (table_with 100 BG)) = Inr 0"
    by code_simp
  have bs: "state (jobs (table_with 100 BG) ! 0) \<noteq> ST"
    by code_simp
  have f: "do_bgfg_target ''fg'' ''100'' (jobs (table_with 100 FG)) = Inr 0"
    by code_simp
  have fs: "state (jobs (table_with 100 FG) ! 0) \<noteq> ST \<and> state (jobs (table_with 100 FG) ! 0) \<noteq> BG"
    by code_simp
  note cb = bgfg_wrong_state [OF b, of "[]" "os_ok 0", THEN conjunct1, THEN mp, OF conjI, OF refl bs]
  note cf = bgfg_wrong_state [OF f, of "[]" "os_ok 0", THEN conjunct2, THEN mp, OF conjI, OF refl fs]
  from cb cf show ?thesis by (intro conjI)
qed

text \<open>
  C10. \<^verbatim>\<open>isnumber\<close> accepts the empty string, so for every state of the job table
  the commands \<^verbatim>\<open>bg %\<close> and \<^verbatim>\<open>fg %\<close> pass the numeric check; \<^verbatim>\<open>atoi\<close> gives job
  id 0, which \<^verbatim>\<open>getjobjid\<close> resolves to no job, and the command prints
  \<^verbatim>\<open>no such job\<close> and returns with the table unchanged.
\<close>

theorem bgfg_percent_only:
  "isnumber []
   \<and> atoi [] = 0
   \<and> getjobjid (jobs sh) 0 = None
   \<and> do_bgfg_target a0 ''%'' (jobs sh) = Inl (''no such job'' @ NL)
   \<and> do_bgfg [''bg'', ''%''] e sh
       = Inr \<lparr>table = sh, printed = ''no such job'' @ NL, killed = [], control = Prompt\<rparr>
   \<and> do_bgfg [''fg'', ''%''] e sh
       = Inr \<lparr>table = sh, printed = ''no such job'' @ NL, killed = [], control = Prompt\<rparr>"
  by (simp add: atoi_def strtol_def int_of_long_def getjobjid_def do_bgfg_target_def do_bgfg_def
        returns_def)

section \<open>The jobs listing\<close>

lemma listbgjobs_filter:
  "listbgjobs js
   = concat (map spec_line (filter (\<lambda>j. live j \<and> (state j = BG \<or> state j = ST)) js))"
  by (induction js)
     (simp_all add: listbgjobs_slot_def spec_line_def state_word_def live_def BG_def ST_def FG_def)

lemma listbgjobs_skips_fg: "listbgjobs (filter (\<lambda>j. state j \<noteq> FG) js) = listbgjobs js"
  by (induction js) (simp_all add: listbgjobs_slot_def BG_def ST_def FG_def)

text \<open>
  C8. For every state of the job table, the built-in \<^verbatim>\<open>jobs\<close> prints exactly the
  live jobs whose state is Background or Stopped, in slot order, one line per job:
  job id, process id, \<^verbatim>\<open>Running\<close> or \<^verbatim>\<open>Stopped\<close>, and the command line. Jobs in
  state Foreground are left out: the listing is the same with them removed.
\<close>

theorem jobs_lists_background_and_stopped:
  "builtin_cmd (''jobs'' # args) e sh
   = Inr (Some \<lparr>table = sh,
                 printed = concat (map spec_line
                   (filter (\<lambda>j. live j \<and> (state j = BG \<or> state j = ST)) (jobs sh))),
                 killed = [], control = Prompt\<rparr>)
   \<and> listbgjobs (filter (\<lambda>j. state j \<noteq> FG) (jobs sh)) = listbgjobs (jobs sh)"
  by (intro conjI, simp add: builtin_cmd_def returns_def listbgjobs_filter, rule listbgjobs_skips_fg)

section \<open>Job-announcement lines\<close>

text \<open>
  C5, as the claim states it, fails: the line announcing \<^verbatim>\<open>sleep 5 &\<close> as job 1 with
  pid 100 is \<^verbatim>\<open>[1] (100) sleep 5 &\<close>, with no state word, where the format of the
  specification gives \<^verbatim>\<open>[1] (100) Running sleep 5 &\<close>.
\<close>

theorem announcement_counterexample:
  "map_sum id printed
     (eval_parsed [''sleep'', ''5''] True (''sleep 5 &'' @ NL) (os_ok 100) (init_shell False))
     = Inr (''[1] (100) sleep 5 &'' @ NL)
   \<and> spec_line \<lparr>pid = 100, jid = 1, state = BG, cmdline = ''sleep 5 &'' @ NL\<rparr>
     = ''[1] (100) Running sleep 5 &'' @ NL
   \<and> map_sum id printed
     (eval_parsed [''sleep'', ''5''] True (''sleep 5 &'' @ NL) (os_ok 100) (init_shell False))
     \<noteq> Inr (spec_line \<lparr>pid = 100, jid = 1, state = BG, cmdline = ''sleep 5 &'' @ NL\<rparr>)"
  by code_simp

text \<open>
  C5, amended. Every job-announcement line has the format
  \<^verbatim>\<open>[<job_id>] (<process_id>) <original_command_text>\<close>, with no state word. When a
  background command is spawned (the command is not a built-in, \<^verbatim>\<open>fork\<close> returned a
  new pid and the table has a free slot), the line carries the job id the table assigned,
  the pid and the command line as typed, after what \<^verbatim>\<open>addjob\<close> printed in verbose
  mode. When \<^verbatim>\<open>bg\<close> resumes a stopped job, the line carries the job id, pid and
  command line of that job.
\<close>

theorem announcement_format:
  "(builtin_cmd argv e sh = Inr None \<and> 0 < fork_ret e
      \<and> (\<exists>j \<in> set (jobs sh). pid j = 0) \<and> (\<forall>j \<in> set (jobs sh). pid j \<noteq> fork_ret e) \<longrightarrow>
      map_sum id printed (eval_parsed argv True c e sh)
      = Inr (snd (snd (addjob sh (fork_ret e) BG c))
             @ ''['' @ show_int (nextjid sh) @ ''] ('' @ show_int (fork_ret e) @ '') '' @ c))
   \<and> (do_bgfg_target ''bg'' a1 (jobs sh) = Inr i \<and> state (jobs sh ! i) = ST
      \<and> 0 \<le> kill_ret e \<longrightarrow>
      map_sum id printed (do_bgfg (''bg'' # a1 # rest) e sh)
      = Inr (''['' @ show_int (jid (jobs sh ! i)) @ ''] ('' @ show_int (pid (jobs sh ! i))
             @ '') '' @ cmdline (jobs sh ! i)))"
proof -
  have A: "map_sum id printed (eval_parsed argv True c e sh)
      = Inr (snd (snd (addjob sh (fork_ret e) BG c))
             @ ''['' @ show_int (nextjid sh) @ ''] ('' @ show_int (fork_ret e) @ '') '' @ c)"
    if b: "builtin_cmd argv e sh = Inr None" and p: "0 < fork_ret e"
      and free: "\<exists>j \<in> set (jobs sh). pid j = 0" and fresh: "\<forall>j \<in> set (jobs sh). pid j \<noteq> fork_ret e"
  proof -
    from free obtain i0 where i0: "first_slot (\<lambda>j. pid j = 0) (jobs sh) = Some i0"
      using first_slot_None [of "\<lambda>j. pid j = 0" "jobs sh"] by (cases "first_slot (\<lambda>j. pid j = 0) (jobs sh)") auto
    from first_slot_Some [OF i0] have len: "i0 < length (jobs sh)" by simp
    let ?j = "(jobs sh ! i0)\<lparr>pid := fork_ret e, state := BG, jid := nextjid sh, cmdline := c\<rparr>"
    from fresh have "\<forall>k < i0. pid (jobs sh ! k) \<noteq> fork_ret e"
      using len by (auto simp: all_set_conv_all_nth)
    then have g: "first_slot (\<lambda>j. pid j = fork_ret e) ((jobs sh)[i0 := ?j]) = Some i0"
      using len by (intro first_slot_update) auto
    show ?thesis
      using b p i0 g len
      by (simp add: eval_parsed_def addjob_def getjobpid_def returns_def listjob_def BG_def Let_def)
  qed
  have B: "map_sum id printed (do_bgfg (''bg'' # a1 # rest) e sh)
      = Inr (''['' @ show_int (jid (jobs sh ! i)) @ ''] ('' @ show_int (pid (jobs sh ! i))
             @ '') '' @ cmdline (jobs sh ! i))"
    if "do_bgfg_target ''bg'' a1 (jobs sh) = Inr i" "state (jobs sh ! i) = ST" "0 \<le> kill_ret e"
    using that by (simp add: do_bgfg_def do_bgfg_job_def listjob_def Let_def)
  from A B show ?thesis by blast
qed

theorem announcement_format_witness:
  "map_sum id printed
     (eval_parsed [''sleep'', ''5''] True (''sleep 5 &'' @ NL) (os_ok 100) (init_shell False))
     = Inr (''[1] (100) sleep 5 &'' @ NL)
   \<and> map_sum id printed (do_bgfg [''bg'', ''%1''] (os_ok 0) (table_with 100 ST))
     = Inr (''[1] (100) sleep 5'' @ NL)"
proof -
  have h: "builtin_cmd [''sleep'', ''5''] (os_ok 100) (init_shell False) = Inr None
      \<and> 0 < fork_ret (os_ok 100)
      \<and> (\<exists>j \<in> set (jobs (init_shell False)). pid j = 0)
      \<and> (\<forall>j \<in> set (jobs (init_shell False)). pid j \<noteq> fork_ret (os_ok 100))"
    by code_simp
  have r: "snd (snd (addjob (init_shell False) (fork_ret (os_ok 100)) BG (''sleep 5 &'' @ NL)))
             @ ''['' @ show_int (nextjid (init_shell False)) @ ''] (''
             @ show_int (fork_ret (os_ok 100)) @ '') '' @ (''sleep 5 &'' @ NL)
           = ''[1] (100) sleep 5 &'' @ NL"
    by code_simp
  have g: "do_bgfg_target ''bg'' ''%1'' (jobs (table_with 100 ST)) = Inr 0
      \<and> state (jobs (table_with 100 ST) ! 0) = ST \<and> 0 \<le> kill_ret (os_ok 0)"
    by code_simp
  have q: "''['' @ show_int (jid (jobs (table_with 100 ST) ! 0)) @ ''] (''
             @ show_int (pid (jobs (table_with 100 ST) ! 0)) @ '') ''
             @ cmdline (jobs (table_with 100 ST) ! 0)
           = ''[1] (100) sleep 5'' @ NL"
    by code_simp
  note a = announcement_format
    [of "[''sleep'', ''5'']" "os_ok 100" "init_shell False" "''sleep 5 &'' @ NL" "''%1''" 0 "[]",
     THEN conjunct1, THEN mp, OF h]
  note b = announcement_format
    [of "[''sleep'', ''5'']" "os_ok 0" "table_with 100 ST" "''sleep 5 &'' @ NL" "''%1''" 0 "[]",
     THEN conjunct2, THEN mp, OF g]
  from a [unfolded r] b [unfolded q] show ?thesis by (intro conjI)
qed

section \<open>The child-status handler\<close>

text \<open>
  C2, as the claim states it, fails: the handler leaves the state of a stopped child's
  job as it was. A foreground job with pid 100 that is reported stopped is still in state
  FG after the handler.
\<close>

theorem sigchld_stop_counterexample:
  "pid (jobs (fst (sigchld_handler [(100, WStopped 19)] (table_with 100 FG))) ! 0) = 100
   \<and> state (jobs (fst (sigchld_handler [(100, WStopped 19)] (table_with 100 FG))) ! 0) = FG
   \<and> state (jobs (fst (sigchld_handler [(100, WStopped 19)] (table_with 100 FG))) ! 0) \<noteq> ST"
  by code_simp

text \<open>
  C2, amended. For every child \<open>p\<close> that \<^verbatim>\<open>waitpid\<close> reports and whose job is in
  the table at slot \<open>i\<close>: if the child exited normally or was terminated by a signal,
  slot \<open>i\<close> is cleared (it no longer holds a live job, and when no later slot holds
  \<open>p\<close>, looking \<open>p\<close> up finds nothing) and \<^verbatim>\<open>nextjid\<close> is recomputed; in the
  signal-terminated case the notice \<^verbatim>\<open>Job [jid] (pid) terminated by signal n\<close> is
  printed. If the child stopped, the notice \<^verbatim>\<open>Job [jid] (pid) stopped by signal n\<close> is
  printed and the table is left exactly as it was: the job remains present, in the state
  it had.
\<close>

theorem sigchld_child_effect:
  assumes "0 < p" and "getjobpid (jobs sh) p = Some i"
  shows "sigchld_child p (WExited n) sh
           = (sh\<lparr>jobs := (jobs sh)[i := clearjob (jobs sh ! i)],
                 nextjid := maxjid ((jobs sh)[i := clearjob (jobs sh ! i)]) + 1\<rparr>, [])
       \<and> sigchld_child p (WSignaled sg) sh
           = (sh\<lparr>jobs := (jobs sh)[i := clearjob (jobs sh ! i)],
                 nextjid := maxjid ((jobs sh)[i := clearjob (jobs sh ! i)]) + 1\<rparr>,
              ''Job ['' @ show_int (jid (jobs sh ! i)) @ ''] ('' @ show_int p
              @ '') terminated by signal '' @ show_int sg @ NL)
       \<and> sigchld_child p (WStopped sg) sh
           = (sh, ''Job ['' @ show_int (jid (jobs sh ! i)) @ ''] ('' @ show_int p
              @ '') stopped by signal '' @ show_int sg @ NL)
       \<and> \<not> live ((jobs sh)[i := clearjob (jobs sh ! i)] ! i)
       \<and> (list_all (\<lambda>j. pid j \<noteq> p) (drop (Suc i) (jobs sh)) \<longrightarrow>
            getjobpid ((jobs sh)[i := clearjob (jobs sh ! i)]) p = None)"
proof -
  from assms have fs: "first_slot (\<lambda>j. pid j = p) (jobs sh) = Some i"
    by (simp add: getjobpid_def split: if_splits)
  from first_slot_Some [OF fs] have len: "i < length (jobs sh)" by simp
  have gone: "getjobpid ((jobs sh)[i := clearjob (jobs sh ! i)]) p = None"
    if later: "list_all (\<lambda>j. pid j \<noteq> p) (drop (Suc i) (jobs sh))"
  proof -
    have "pid (jobs sh ! k) \<noteq> p" if k: "k < length (jobs sh)" "k \<noteq> i" for k
    proof (cases "k < i")
      case True
      with first_slot_Some [OF fs] show ?thesis by simp
    next
      case False
      with k have "jobs sh ! k = drop (Suc i) (jobs sh) ! (k - Suc i)"
        and "k - Suc i < length (drop (Suc i) (jobs sh))"
        by auto
      then have "jobs sh ! k \<in> set (drop (Suc i) (jobs sh))"
        by (metis nth_mem)
      with later show ?thesis by (auto simp: list_all_iff)
    qed
    with len assms(1) show ?thesis
      by (simp add: getjobpid_def update_not_found clearjob_def)
  qed
  from fs len assms(1) gone show ?thesis
    by (simp add: sigchld_child_def deletejob_def pid2jid_def Let_def live_def clearjob_def)
qed

theorem sigchld_child_effect_witness:
  "sigchld_child 100 (WStopped 19) (table_with 100 FG)
     = (table_with 100 FG, ''Job [1] (100) stopped by signal 19'' @ NL)
   \<and> getjobpid ((jobs (table_with 100 FG))[0 := clearjob (jobs (table_with 100 FG) ! 0)]) 100
     = None"
proof -
  have p: "(0::int) < 100" by simp
  have g: "getjobpid (jobs (table_with 100 FG)) 100 = Some 0" by code_simp
  have u: "list_all (\<lambda>j. pid j \<noteq> 100) (drop (Suc 0) (jobs (table_with 100 FG)))"
    by code_simp
  have t: "''Job ['' @ show_int (jid (jobs (table_with 100 FG) ! 0)) @ ''] ('' @ show_int 100
              @ '') stopped by signal '' @ show_int 19 @ NL
           = ''Job [1] (100) stopped by signal 19'' @ NL"
    by code_simp
  note e = sigchld_child_effect [OF p g, of 0 19]
  note e3 = e [THEN conjunct2, THEN conjunct2, THEN conjunct1, unfolded t]
  note e5 = e [THEN conjunct2, THEN conjunct2, THEN conjunct2, THEN conjunct2, THEN mp, OF u]
  from e3 e5 show ?thesis by (intro conjI)
qed

section \<open>Job ids\<close>

lemma max_live_jid_nonneg: "0 \<le> max_live_jid js"
  by (induction js) auto

lemma maxjid_from_live:
  "free_slots_clear js \<Longrightarrow> 0 \<le> m \<Longrightarrow> maxjid_from m js = max m (max_live_jid js)"
proof (induction js arbitrary: m)
  case Nil
  then show ?case by simp
next
  case (Cons j js)
  from Cons.prems have rest: "free_slots_clear js" and j: "live j \<or> jid j = 0"
    by (simp_all add: free_slots_clear_def)
  let ?m = "if jid j > m then jid j else m"
  from Cons.prems(2) have "0 \<le> ?m" by simp
  from Cons.IH [OF rest this] have "maxjid_from ?m js = max ?m (max_live_jid js)" .
  with j Cons.prems(2) show ?case by auto
qed

lemma maxjid_live: "free_slots_clear js \<Longrightarrow> maxjid js = max_live_jid js"
  using maxjid_from_live [of js 0] max_live_jid_nonneg [of js] by (simp add: maxjid_def)

lemma max_live_jid_update:
  "i < length js \<Longrightarrow> \<not> live (js ! i) \<Longrightarrow> live x
   \<Longrightarrow> max_live_jid (js[i := x]) = max (jid x) (max_live_jid js)"
proof (induction js arbitrary: i)
  case Nil
  then show ?case by simp
next
  case (Cons j js)
  then show ?case by (cases i) auto
qed

lemma free_slots_clear_update:
  "free_slots_clear js \<Longrightarrow> live x \<or> jid x = 0 \<Longrightarrow> free_slots_clear (js[i := x])"
  unfolding free_slots_clear_def by (rule list_all_update)

lemma free_slots_clear_kept:
  assumes "free_slots_clear (jobs sh)"
  shows "free_slots_clear (jobs (snd (deletejob sh p)))"
    and "free_slots_clear (jobs (fst (snd (addjob sh p s c))))"
proof -
  from assms show "free_slots_clear (jobs (snd (deletejob sh p)))"
    by (auto simp: deletejob_def Let_def clearjob_def intro: free_slots_clear_update
             split: option.splits)
  from assms show "free_slots_clear (jobs (fst (snd (addjob sh p s c))))"
    by (auto simp: addjob_def Let_def live_def intro: free_slots_clear_update
             split: option.splits)
qed

text \<open>
  In every state the shell reaches, the free slots carry job id 0: the hypothesis of the
  amended relation below holds throughout a run.
\<close>

lemma free_slots_clear_state:
  assumes "free_slots_clear js"
  shows "free_slots_clear (js[i := (js ! i)\<lparr>state := s\<rparr>])"
proof (cases "i < length js")
  case True
  with assms have "live (js ! i) \<or> jid (js ! i) = 0"
    by (simp add: free_slots_clear_def list_all_length)
  then have "live ((js ! i)\<lparr>state := s\<rparr>) \<or> jid ((js ! i)\<lparr>state := s\<rparr>) = 0"
    by (simp add: live_def)
  with assms show ?thesis by (rule free_slots_clear_update)
next
  case False
  with assms show ?thesis by (simp add: list_update_beyond)
qed

lemma free_slots_clear_sigchld_child:
  "free_slots_clear (jobs sh) \<Longrightarrow> free_slots_clear (jobs (fst (sigchld_child p w sh)))"
  by (cases w) (simp_all add: sigchld_child_def free_slots_clear_kept(1))

lemma free_slots_clear_sigchld_handler:
  "free_slots_clear (jobs sh) \<Longrightarrow> free_slots_clear (jobs (fst (sigchld_handler ws sh)))"
proof (induction ws arbitrary: sh)
  case Nil
  then show ?case by simp
next
  case (Cons a ws)
  obtain p w where a: "a = (p, w)" by (cases a)
  from Cons.IH [OF free_slots_clear_sigchld_child [OF Cons.prems, of p w]] Cons.prems a
  show ?case by (auto split: prod.splits)
qed

lemma free_slots_clear_sigtstp:
  "free_slots_clear (jobs sh) \<Longrightarrow> sigtstp_handler e sh = Inr r
   \<Longrightarrow> free_slots_clear (jobs (table r))"
  by (auto simp: sigtstp_handler_def Let_def unix_error_def free_slots_clear_state
           split: if_splits option.splits)

lemma free_slots_clear_do_bgfg:
  "free_slots_clear (jobs sh) \<Longrightarrow> do_bgfg argv e sh = Inr r
   \<Longrightarrow> free_slots_clear (jobs (table r))"
  by (auto simp: do_bgfg_def do_bgfg_job_def Let_def returns_def unix_error_def
                 free_slots_clear_state
           split: list.splits sum.splits if_splits)

lemma free_slots_clear_eval_parsed:
  assumes "free_slots_clear (jobs sh)" and "eval_parsed argv bg c e sh = Inr r"
  shows "free_slots_clear (jobs (table r))"
proof (cases "builtin_cmd argv e sh")
  case (Inl f)
  with assms show ?thesis by (simp add: eval_parsed_def)
next
  case (Inr b)
  show ?thesis
  proof (cases b)
    case (Some r')
    with Inr assms free_slots_clear_do_bgfg [OF assms(1), of argv e r] show ?thesis
      by (cases argv)
         (auto simp: eval_parsed_def builtin_cmd_def returns_def map_sum_def
               split: if_splits sum.splits)
  next
    case None
    from assms(2) Inr None
      free_slots_clear_kept(2) [OF assms(1), of "fork_ret e" 1 c]
      free_slots_clear_kept(2) [OF assms(1), of "fork_ret e" 2 c]
      assms(1)
    show ?thesis
      by (auto simp: eval_parsed_def Let_def returns_def unix_error_def
               split: if_splits prod.splits option.splits)
  qed
qed

lemma free_slots_clear_step:
  assumes "free_slots_clear (jobs (fst cfg))" and "step ev cfg = Some cfg'"
  shows "free_slots_clear (jobs (fst cfg'))"
proof -
  obtain sh c where cfg: "cfg = (sh, c)" by (cases cfg)
  with assms(1) have fc: "free_slots_clear (jobs sh)" by simp
  have h: "free_slots_clear (jobs (fst cfg'))" if "handle_signal ev sh k = Some cfg'" for k
    using that fc free_slots_clear_sigchld_handler [OF fc]
    by (cases ev)
       (auto simp: resume_def sigint_handler_def Let_def unix_error_def
             dest: free_slots_clear_sigtstp split: sum.splits)
  from assms(2) cfg h fc show ?thesis
    by (cases c; cases ev)
       (auto simp: waitfg_poll_def dest: free_slots_clear_eval_parsed split: sum.splits)
qed

lemma free_slots_clear_run:
  "run evs cfg = Some cfg' \<Longrightarrow> free_slots_clear (jobs (fst cfg))
   \<Longrightarrow> free_slots_clear (jobs (fst cfg'))"
proof (induction evs arbitrary: cfg)
  case Nil
  then show ?case by simp
next
  case (Cons ev evs)
  from Cons.prems(1) obtain cfg1 where s: "step ev cfg = Some cfg1" and r: "run evs cfg1 = Some cfg'"
    by (auto split: option.splits)
  from Cons.IH [OF r free_slots_clear_step [OF Cons.prems(2) s]] show ?case .
qed

lemma free_slots_clear_reachable:
  "run evs (init_shell v, Prompt) = Some (sh, c) \<Longrightarrow> free_slots_clear (jobs sh)"
  using free_slots_clear_run [of evs "(init_shell v, Prompt)" "(sh, c)"]
  by (simp add: init_shell_def initjobs_def clearjob_def free_slots_clear_def list_all_iff)

text \<open>
  C3, as the claim states it, fails: after sixteen background jobs have been spawned and
  the first has exited, \<^verbatim>\<open>nextjid\<close> is 17, where the maximum live job id plus 1,
  wrapped at the capacity, would be 1.
\<close>

theorem next_jid_counterexample:
  "nextjid_after [spawn_bg 1, spawn_bg 2, spawn_bg 3, spawn_bg 4, spawn_bg 5, spawn_bg 6,
     spawn_bg 7, spawn_bg 8, spawn_bg 9, spawn_bg 10, spawn_bg 11, spawn_bg 12, spawn_bg 13,
     spawn_bg 14, spawn_bg 15, spawn_bg 16, Sigchld [(1, WExited 0)]] = Some 17
   \<and> map_option spec_next_jid
       (jobs_after [spawn_bg 1, spawn_bg 2, spawn_bg 3, spawn_bg 4, spawn_bg 5, spawn_bg 6,
         spawn_bg 7, spawn_bg 8, spawn_bg 9, spawn_bg 10, spawn_bg 11, spawn_bg 12, spawn_bg 13,
         spawn_bg 14, spawn_bg 15, spawn_bg 16, Sigchld [(1, WExited 0)]]) = Some 1"
  by code_simp

text \<open>
  C3, amended. After every successful removal from a table whose free slots carry job id 0
  (as \<^verbatim>\<open>clearjob\<close> leaves them), the next job id equals the maximum job id among the
  live jobs plus 1, exactly: removal applies no wrap, so the value can exceed the capacity.
  Every successful insert that assigns an id below the capacity preserves this relation.
\<close>

theorem next_jid_relation:
  "(free_slots_clear (jobs sh) \<and> fst (deletejob sh p) \<longrightarrow>
      nextjid (snd (deletejob sh p)) = max_live_jid (jobs (snd (deletejob sh p))) + 1)
   \<and> (free_slots_clear (jobs sh) \<and> nextjid sh = max_live_jid (jobs sh) + 1
       \<and> nextjid sh < int MAXJOBS \<and> fst (addjob sh p s c) \<longrightarrow>
      nextjid (fst (snd (addjob sh p s c)))
        = max_live_jid (jobs (fst (snd (addjob sh p s c)))) + 1)"
proof (intro conjI impI)
  assume a: "free_slots_clear (jobs sh) \<and> fst (deletejob sh p)"
  then have ok: "fst (deletejob sh p)" and fc: "free_slots_clear (jobs sh)" by simp_all
  from free_slots_clear_kept(1) [OF fc]
  have "maxjid (jobs (snd (deletejob sh p))) = max_live_jid (jobs (snd (deletejob sh p)))"
    by (rule maxjid_live)
  moreover from ok have "nextjid (snd (deletejob sh p)) = maxjid (jobs (snd (deletejob sh p))) + 1"
    by (auto simp: deletejob_def Let_def split: if_splits option.splits)
  ultimately show "nextjid (snd (deletejob sh p)) = max_live_jid (jobs (snd (deletejob sh p))) + 1"
    by simp
next
  assume a: "free_slots_clear (jobs sh) \<and> nextjid sh = max_live_jid (jobs sh) + 1
       \<and> nextjid sh < int MAXJOBS \<and> fst (addjob sh p s c)"
  then have p: "\<not> p < 1"
    by (auto simp: addjob_def)
  from a p obtain i where i: "first_slot (\<lambda>j. pid j = 0) (jobs sh) = Some i"
    by (auto simp: addjob_def split: option.splits)
  from first_slot_Some [OF i] have len: "i < length (jobs sh)" and free: "\<not> live (jobs sh ! i)"
    by (simp_all add: live_def)
  let ?j = "(jobs sh ! i)\<lparr>pid := p, state := s, jid := nextjid sh, cmdline := c\<rparr>"
  from p have "live ?j" by (simp add: live_def)
  from max_live_jid_update [OF len free this]
  have "max_live_jid ((jobs sh)[i := ?j]) = max (nextjid sh) (max_live_jid (jobs sh))"
    by simp
  with a p i show "nextjid (fst (snd (addjob sh p s c)))
        = max_live_jid (jobs (fst (snd (addjob sh p s c)))) + 1"
    by (simp add: addjob_def Let_def)
qed

theorem next_jid_relation_witness:
  "nextjid (snd (deletejob (table_with 100 BG) 100))
     = max_live_jid (jobs (snd (deletejob (table_with 100 BG) 100))) + 1
   \<and> nextjid (fst (snd (addjob (table_with 100 BG) 101 BG ''ls &'')))
     = max_live_jid (jobs (fst (snd (addjob (table_with 100 BG) 101 BG ''ls &'')))) + 1
   \<and> nextjid (fst (snd (addjob (table_with 100 BG) 101 BG ''ls &''))) = 3"
proof -
  have d: "free_slots_clear (jobs (table_with 100 BG)) \<and> fst (deletejob (table_with 100 BG) 100)"
    by code_simp
  have a: "free_slots_clear (jobs (table_with 100 BG))
       \<and> nextjid (table_with 100 BG) = max_live_jid (jobs (table_with 100 BG)) + 1
       \<and> nextjid (table_with 100 BG) < int MAXJOBS
       \<and> fst (addjob (table_with 100 BG) 101 BG ''ls &'')"
    by code_simp
  have v: "nextjid (fst (snd (addjob (table_with 100 BG) 101 BG ''ls &''))) = 3"
    by code_simp
  note t = next_jid_relation [of "table_with 100 BG" _ "BG" "''ls &''"]
  note t1 = t [of 100, THEN conjunct1, THEN mp, OF d]
  note t2 = t [of 101, THEN conjunct2, THEN mp, OF a]
  from t1 t2 v show ?thesis by (intro conjI)
qed

text \<open>
  C4. The job id assigned by a successful insert should differ from the job id of every
  other live job. The code breaks this after \<^verbatim>\<open>nextjid\<close> wraps to 1: fifteen
  background jobs are spawned (pids 1 to 15, job ids 1 to 15), the job with pid 2 exits,
  and two more are spawned. The first gets job id 16 and the counter wraps; the second
  (pid 17) gets job id 1, which the live job with pid 1 still carries.
\<close>

theorem duplicate_jid_after_wrap:
  "map_option (map jid)
     (jobs_after [spawn_bg 1, spawn_bg 2, spawn_bg 3, spawn_bg 4, spawn_bg 5, spawn_bg 6,
       spawn_bg 7, spawn_bg 8, spawn_bg 9, spawn_bg 10, spawn_bg 11, spawn_bg 12, spawn_bg 13,
       spawn_bg 14, spawn_bg 15, Sigchld [(2, WExited 0)], spawn_bg 16, spawn_bg 17])
     = Some [1, 16, 3, 4, 5, 6, 7, 8, 9, 10, 11, 12, 13, 14, 15, 1]
   \<and> map_option (map pid)
     (jobs_after [spawn_bg 1, spawn_bg 2, spawn_bg 3, spawn_bg 4, spawn_bg 5, spawn_bg 6,
       spawn_bg 7, spawn_bg 8, spawn_bg 9, spawn_bg 10, spawn_bg 11, spawn_bg 12, spawn_bg 13,
       spawn_bg 14, spawn_bg 15, Sigchld [(2, WExited 0)], spawn_bg 16, spawn_bg 17])
     = Some [1, 16, 3, 4, 5, 6, 7, 8, 9, 10, 11, 12, 13, 14, 15, 17]"
  by code_simp

section \<open>At most one foreground job\<close>

lemma filter_update_le:
  "\<not> P x \<Longrightarrow> length (filter P (xs[i := x])) \<le> length (filter P xs)"
proof (induction xs arbitrary: i)
  case Nil
  then show ?case by simp
next
  case (Cons y ys)
  then show ?case by (cases i) (auto simp: le_SucI)
qed

lemma filter_update_none:
  "list_all (\<lambda>y. \<not> P y) xs \<Longrightarrow> length (filter P (xs[i := x])) \<le> 1"
proof (induction xs arbitrary: i)
  case Nil
  then show ?case by simp
next
  case (Cons y ys)
  show ?case
  proof (cases i)
    case 0
    from Cons.prems have "filter P ys = []" by (auto simp: list_all_iff filter_empty_conv)
    with Cons.prems 0 show ?thesis by simp
  next
    case (Suc k)
    with Cons show ?thesis by simp
  qed
qed

lemma inv_same_table:
  "fg_invariant (sh, Prompt) \<Longrightarrow> fg_invariant (sh, c)"
  by (cases c) (auto simp: fg_invariant_def list_all_iff)

lemma inv_exited:
  "fg_invariant (sh, c) \<Longrightarrow> fg_invariant (sh, Exited n)"
  by (simp add: fg_invariant_def)

lemma inv_update_other:
  assumes "fg_invariant (sh, c)" and "state x \<noteq> FG"
  shows "fg_invariant (sh\<lparr>jobs := (jobs sh)[i := x], nextjid := n\<rparr>, c)"
proof -
  have "length (filter (\<lambda>j. state j = FG) ((jobs sh)[i := x]))
        \<le> length (filter (\<lambda>j. state j = FG) (jobs sh))"
    using assms(2) by (rule filter_update_le)
  with assms show ?thesis
    by (cases c) (auto simp: fg_invariant_def intro: list_all_update)
qed

lemma inv_update_state:
  assumes "fg_invariant (sh, c)" and "state x \<noteq> FG"
  shows "fg_invariant (sh\<lparr>jobs := (jobs sh)[i := x]\<rparr>, c)"
  using inv_update_other [OF assms, where i = i and n = "nextjid sh"] by simp

lemma inv_update_fg:
  assumes "fg_invariant (sh, Prompt)" and "pid x = p"
  shows "fg_invariant (sh\<lparr>jobs := (jobs sh)[i := x], nextjid := n\<rparr>, WaitFg p)"
proof -
  from assms(1) have none: "list_all (\<lambda>j. \<not> state j = FG) (jobs sh)"
    by (simp add: fg_invariant_def)
  then have "length (filter (\<lambda>j. state j = FG) ((jobs sh)[i := x])) \<le> 1"
    by (rule filter_update_none)
  moreover from none have "list_all (\<lambda>j. state j = FG \<longrightarrow> pid j = p) (jobs sh)"
    by (auto simp: list_all_iff)
  then have "list_all (\<lambda>j. state j = FG \<longrightarrow> pid j = p) ((jobs sh)[i := x])"
    using assms(2) by (intro list_all_update) auto
  ultimately show ?thesis by (simp add: fg_invariant_def)
qed

lemma inv_deletejob:
  "fg_invariant (sh, c) \<Longrightarrow> fg_invariant (snd (deletejob sh p), c)"
  by (auto simp: deletejob_def Let_def clearjob_def UNDEF_def FG_def
           intro!: inv_update_other split: option.splits)

lemma inv_sigchld_child:
  "fg_invariant (sh, c) \<Longrightarrow> fg_invariant (fst (sigchld_child p w sh), c)"
  by (cases w) (simp_all add: sigchld_child_def inv_deletejob)

lemma inv_sigchld_handler:
  "fg_invariant (sh, c) \<Longrightarrow> fg_invariant (fst (sigchld_handler ws sh), c)"
proof (induction ws arbitrary: sh)
  case Nil
  then show ?case by simp
next
  case (Cons a ws)
  obtain p w where a: "a = (p, w)" by (cases a)
  show ?case
  proof (cases "p > 0")
    case True
    from inv_sigchld_child [OF Cons.prems, of p w]
    have "fg_invariant (fst (sigchld_handler ws (fst (sigchld_child p w sh))), c)"
      by (rule Cons.IH)
    with True a show ?thesis by (auto split: prod.splits)
  next
    case False
    with a Cons.prems show ?thesis by simp
  qed
qed

lemma inv_sigtstp:
  assumes "fg_invariant (sh, c)" and "sigtstp_handler e sh = Inr r"
  shows "fg_invariant (resume c r)"
proof -
  have st: "state ((jobs sh ! i)\<lparr>state := ST\<rparr>) \<noteq> FG" for i
    by (simp add: ST_def FG_def)
  from assms show ?thesis
    by (auto simp: sigtstp_handler_def Let_def resume_def unix_error_def
             intro: inv_exited inv_update_state [OF _ st]
             split: if_splits option.splits)
qed

lemma inv_sigint:
  assumes "fg_invariant (sh, c)"
  shows "fg_invariant (resume c (sigint_handler e sh))"
  using assms
  by (auto simp: sigint_handler_def Let_def resume_def unix_error_def intro: inv_exited)

lemma fgpid_waiting:
  assumes "list_all (\<lambda>j. state j = FG \<longrightarrow> pid j = p) js" and "fgpid js \<noteq> p"
  shows "list_all (\<lambda>j. state j \<noteq> FG) js"
proof (cases "first_slot (\<lambda>j. state j = FG) js")
  case None
  then show ?thesis by (simp add: first_slot_None list_all_iff)
next
  case (Some i)
  from first_slot_Some [OF Some] have "i < length js" "state (js ! i) = FG" by simp_all
  with assms(1) have "pid (js ! i) = p" by (auto simp: list_all_iff)
  with Some assms(2) show ?thesis by (simp add: fgpid_def)
qed

lemma inv_poll:
  assumes "fg_invariant (sh, WaitFg p)"
  shows "fg_invariant (sh, waitfg_poll p sh)"
  using assms fgpid_waiting [of p "jobs sh"]
  by (auto simp: waitfg_poll_def fg_invariant_def)

lemma inv_do_bgfg_job:
  assumes "fg_invariant (sh, Prompt)"
  shows "fg_invariant (table (do_bgfg_job isbg i e sh), control (do_bgfg_job isbg i e sh))"
proof -
  have bg: "state ((jobs sh ! i)\<lparr>state := BG\<rparr>) \<noteq> FG"
    by (simp add: BG_def FG_def)
  have fg: "pid ((jobs sh ! i)\<lparr>state := FG\<rparr>) = pid (jobs sh ! i)"
    by simp
  from inv_update_fg [OF assms fg, where i = i and n = "nextjid sh"]
  have f: "fg_invariant (sh\<lparr>jobs := (jobs sh)[i := (jobs sh ! i)\<lparr>state := FG\<rparr>]\<rparr>, WaitFg (pid (jobs sh ! i)))"
    by simp
  from assms inv_update_state [OF assms bg, where i = i] f show ?thesis
    by (auto simp: do_bgfg_job_def Let_def returns_def unix_error_def intro: inv_exited)
qed

lemma inv_do_bgfg:
  assumes "fg_invariant (sh, Prompt)" and "do_bgfg argv e sh = Inr r"
  shows "fg_invariant (table r, control r)"
  using assms inv_do_bgfg_job [OF assms(1)]
  by (auto simp: do_bgfg_def returns_def split: list.splits sum.splits)

lemma inv_builtin_cmd:
  assumes "fg_invariant (sh, Prompt)" and "builtin_cmd argv e sh = Inr (Some r)"
  shows "fg_invariant (table r, control r)"
proof (cases argv)
  case Nil
  with assms show ?thesis by (simp add: builtin_cmd_def)
next
  case (Cons a0 rest)
  have "fg_invariant (table r, control r)" if "do_bgfg argv e sh = Inr r"
    using assms(1) that by (rule inv_do_bgfg)
  with assms Cons show ?thesis
    by (auto simp: builtin_cmd_def returns_def map_sum_def intro: inv_exited
             split: if_splits sum.splits)
qed

lemma inv_addjob:
  assumes "fg_invariant (sh, Prompt)"
  shows "fg_invariant (fst (snd (addjob sh p BG c)), Prompt)
       \<and> fg_invariant (fst (snd (addjob sh p FG c)), WaitFg p)"
proof -
  have b: "state ((jobs sh ! i)\<lparr>pid := p, state := BG, jid := nextjid sh, cmdline := c\<rparr>) \<noteq> FG" for i
    by (simp add: BG_def FG_def)
  have f: "pid ((jobs sh ! i)\<lparr>pid := p, state := FG, jid := nextjid sh, cmdline := c\<rparr>) = p" for i
    by simp
  from assms inv_same_table [OF assms, of "WaitFg p"] show ?thesis
    by (auto simp: addjob_def Let_def split: option.splits
             intro!: inv_update_other [OF assms b] inv_update_fg [OF assms f])
qed

lemma inv_eval_parsed:
  assumes "fg_invariant (sh, Prompt)" and "eval_parsed argv bg c e sh = Inr r"
  shows "fg_invariant (table r, control r)"
proof (cases "builtin_cmd argv e sh")
  case (Inl f)
  with assms show ?thesis by (simp add: eval_parsed_def)
next
  case (Inr b)
  show ?thesis
  proof (cases b)
    case (Some r')
    with Inr assms(2) have "r' = r" by (simp add: eval_parsed_def)
    with inv_builtin_cmd [OF assms(1)] Inr Some show ?thesis by simp
  next
    case None
    from inv_addjob [OF assms(1), of "fork_ret e" c]
    have a: "fg_invariant (fst (snd (addjob sh (fork_ret e) 2 c)), Prompt)"
      and b: "fg_invariant (fst (snd (addjob sh (fork_ret e) 1 c)), WaitFg (fork_ret e))"
      by (simp_all add: BG_def FG_def)
    from assms Inr None a b show ?thesis
      by (auto simp: eval_parsed_def Let_def returns_def unix_error_def
               intro: inv_exited split: if_splits prod.splits option.splits)
        (simp add: fg_invariant_def)
  qed
qed

lemma inv_handle_signal:
  assumes "fg_invariant (sh, c)" and "handle_signal ev sh c = Some cfg"
  shows "fg_invariant cfg"
proof (cases ev)
  case (Sigchld ws)
  with assms inv_sigchld_handler [OF assms(1), of ws] show ?thesis by auto
next
  case (Sigtstp e)
  with assms inv_sigtstp [OF assms(1), of e] show ?thesis by (auto split: sum.splits)
next
  case (Sigint e)
  with assms inv_sigint [OF assms(1), of e] show ?thesis by auto
qed (use assms in simp_all)

lemma inv_step:
  assumes "fg_invariant cfg" and "step ev cfg = Some cfg'"
  shows "fg_invariant cfg'"
proof -
  obtain sh c where cfg: "cfg = (sh, c)" by (cases cfg)
  show ?thesis
  proof (cases c)
    case Prompt
    show ?thesis
    proof (cases ev)
      case (Command argv bg cl e)
      with assms cfg Prompt inv_eval_parsed [of sh argv bg cl e] show ?thesis
        by (auto split: sum.splits)
    next
      case Poll
      with assms cfg Prompt show ?thesis by simp
    next
      case (Sigchld ws)
      with assms cfg Prompt inv_handle_signal [of sh Prompt ev cfg'] show ?thesis by simp
    next
      case (Sigtstp e)
      with assms cfg Prompt inv_handle_signal [of sh Prompt ev cfg'] show ?thesis by simp
    next
      case (Sigint e)
      with assms cfg Prompt inv_handle_signal [of sh Prompt ev cfg'] show ?thesis by simp
    qed
  next
    case (WaitFg p)
    show ?thesis
    proof (cases ev)
      case (Command argv bg cl e)
      with assms cfg WaitFg show ?thesis by simp
    next
      case Poll
      with assms cfg WaitFg inv_poll [of sh p] show ?thesis by auto
    next
      case (Sigchld ws)
      with assms cfg WaitFg inv_handle_signal [of sh "WaitFg p" ev cfg'] show ?thesis by simp
    next
      case (Sigtstp e)
      with assms cfg WaitFg inv_handle_signal [of sh "WaitFg p" ev cfg'] show ?thesis by simp
    next
      case (Sigint e)
      with assms cfg WaitFg inv_handle_signal [of sh "WaitFg p" ev cfg'] show ?thesis by simp
    qed
  next
    case (Exited n)
    with assms cfg show ?thesis by simp
  next
    case Child
    with assms cfg show ?thesis by simp
  qed
qed

lemma inv_run:
  "run evs cfg = Some cfg' \<Longrightarrow> fg_invariant cfg \<Longrightarrow> fg_invariant cfg'"
proof (induction evs arbitrary: cfg)
  case Nil
  then show ?case by simp
next
  case (Cons ev evs)
  from Cons.prems(1) obtain cfg1 where s: "step ev cfg = Some cfg1" and r: "run evs cfg1 = Some cfg'"
    by (auto split: option.splits)
  from Cons.IH [OF r inv_step [OF Cons.prems(2) s]] show ?case .
qed

lemma inv_init: "fg_invariant (init_shell v, Prompt)"
  by (simp add: fg_invariant_def init_shell_def initjobs_def clearjob_def UNDEF_def FG_def
        list_all_iff filter_empty_conv MAXJOBS_def)

lemma filter_conj_le: "length (filter (\<lambda>x. P x \<and> Q x) xs) \<le> length (filter Q xs)"
  by (induction xs) auto

text \<open>
  C1. In every state the shell reaches from its initial state, by any sequence of commands
  (each running \<^verbatim>\<open>addjob\<close> or the state changes of \<^verbatim>\<open>do_bgfg\<close> as \<^verbatim>\<open>eval\<close>
  runs them), polls of \<^verbatim>\<open>waitfg\<close> and signal handlers (\<^verbatim>\<open>deletejob\<close> in the
  child-status handler, the stop transition in \<^verbatim>\<open>sigtstp_handler\<close>), at most one
  live job is in state Foreground.
\<close>

theorem at_most_one_foreground:
  assumes "run evs (init_shell v, Prompt) = Some (sh, c)"
  shows "length (fg_jobs (jobs sh)) \<le> 1"
proof -
  from inv_run [OF assms inv_init]
  have "length (filter (\<lambda>j. state j = FG) (jobs sh)) \<le> 1"
    by (simp add: fg_invariant_def)
  moreover have "length (fg_jobs (jobs sh)) \<le> length (filter (\<lambda>j. state j = FG) (jobs sh))"
    unfolding fg_jobs_def by (rule filter_conj_le)
  ultimately show ?thesis by linarith
qed

theorem at_most_one_foreground_witness:
  "\<exists>sh c. run [spawn_fg 100, Sigtstp (os_ok 0), Poll, spawn_bg 101,
                Command [''fg'', ''%1''] False (''fg %1'' @ NL) (os_ok 0)]
               (init_shell False, Prompt) = Some (sh, c)
          \<and> length (fg_jobs (jobs sh)) \<le> 1 \<and> fg_jobs (jobs sh) \<noteq> []"
proof -
  let ?evs = "[spawn_fg 100, Sigtstp (os_ok 0), Poll, spawn_bg 101,
                Command [''fg'', ''%1''] False (''fg %1'' @ NL) (os_ok 0)]"
  have "map_option (\<lambda>cfg. fg_jobs (jobs (fst cfg)) \<noteq> []) (run ?evs (init_shell False, Prompt))
        = Some True"
    by code_simp
  then obtain sh c where r: "run ?evs (init_shell False, Prompt) = Some (sh, c)"
    and ne: "fg_jobs (jobs sh) \<noteq> []"
    by auto
  from at_most_one_foreground [OF r] r ne show ?thesis by blast
qed

end
